theory Spec2Isabelle
  imports Main "HOL-Library.Sublist"
begin

section \<open>Python values, renderable objects and the object store\<close>

text \<open>
  The module \<^verbatim>\<open>vedo/assembly.py\<close> groups renderable objects into an \<^verbatim>\<open>Assembly\<close>
  and wraps the toolkit's Procrustes filter. It is dynamically typed glue code, so the
  model has a small universe of Python values, a store of renderable objects addressed
  by reference (object identity matters for \<^verbatim>\<open>clone\<close> and for the frame property of
  \<^verbatim>\<open>procrustesAlignment\<close>), and a sum type for the exceptions that can be raised.
  \<open>Crash\<close> is not an exception: it is the toolkit taking the process down.
\<close>

datatype error = RuntimeError | TypeError | AttributeError | IndexError | Crash

type_synonym ref = nat

text \<open>
  The values that reach the module: \<^verbatim>\<open>None\<close>, integers and strings (selectors of
  \<^verbatim>\<open>unpack\<close>, arguments of \<^verbatim>\<open>in\<close>), references to renderable objects, and lists of
  values, nested to any finite depth. The tuple of the constructor's positional arguments
  is the list of the arguments.
\<close>

datatype pyval = PNone | PInt int | PStr string | PObj ref | PList "pyval list"

text \<open>
  Modelled from the spec: the class of renderable objects (\<^verbatim>\<open>vedo.mesh.Mesh\<close> and its
  base classes in \<^verbatim>\<open>vedo.base\<close>) is not part of the source at hand. The specification's
  data model gives a renderable a point geometry with its point count, a set of visual
  properties, an optional name with its label text, and optional base and top reference
  points that are exposed together. The coordinates are opaque here (type \<open>'c\<close>): the module
  never computes on them. \<^verbatim>\<open>hasattr(x, 'name')\<close> is \<open>label x \<noteq> None\<close>, and
  \<^verbatim>\<open>hasattr(x, "top")\<close> is \<open>anchors x \<noteq> None\<close>; the pair is \<open>(base, top)\<close>.
\<close>

record 'c renderable =
  polydata :: "'c list"
  property :: nat
  label :: "(string \<times> string) option"
  anchors :: "('c \<times> 'c) option"

text \<open>\<^verbatim>\<open>source.N()\<close>: the number of points of the object's point set.\<close>

definition N :: "'c renderable \<Rightarrow> nat" where
  "N m = length (polydata m)"

text \<open>
  The store maps every reference to an object; the references below \<open>nxt\<close> are the
  allocated ones, and a new object is placed at \<open>nxt\<close>. \<open>logged\<close> collects the messages
  passed to \<^verbatim>\<open>vedo.logger.error\<close>.
\<close>

record 'c world =
  store :: "ref \<Rightarrow> 'c renderable"
  nxt :: ref
  logged :: "string list"

definition alloc :: "'c world \<Rightarrow> 'c renderable \<Rightarrow> ref \<times> 'c world" where
  "alloc w m = (nxt w, w\<lparr>store := (store w)(nxt w := m), nxt := Suc (nxt w)\<rparr>)"

definition logger_error :: "'c world \<Rightarrow> string \<Rightarrow> 'c world" where
  "logger_error w msg = w\<lparr>logged := logged w @ [msg]\<rparr>"

text \<open>Python truthiness, as tested by \<^verbatim>\<open>if a:\<close>. A renderable object is truthy.\<close>

fun truthy :: "pyval \<Rightarrow> bool" where
  "truthy PNone = False"
| "truthy (PInt i) = (i \<noteq> 0)"
| "truthy (PStr s) = (s \<noteq> [])"
| "truthy (PObj r) = True"
| "truthy (PList xs) = (xs \<noteq> [])"

text \<open>
  Modelled from the spec: \<^verbatim>\<open>utils.flatten\<close> lives in \<^verbatim>\<open>vedo/utils.py\<close>, which is not part
  of the source at hand. The specification describes it as flattening nested structures
  of unbounded, finite depth into one ordered sequence: every nested list is replaced by
  its flattened elements, every other element is kept in place.
\<close>

fun flatten :: "pyval list \<Rightarrow> pyval list" where
  "flatten [] = []"
| "flatten (PList xs # rest) = flatten xs @ flatten rest"
| "flatten (x # rest) = x # flatten rest"

section \<open>The Assembly class\<close>

text \<open>
  An assembly object: the Python attribute \<^verbatim>\<open>actors\<close> (whatever value the constructor
  assigned to it), the children registered with the underlying \<^verbatim>\<open>vtkAssembly\<close> node
  (\<open>parts\<close>), the attributes \<^verbatim>\<open>base\<close> and \<^verbatim>\<open>top\<close> (named \<open>base_anchor\<close>, \<open>top_anchor\<close>;
  \<open>None\<close> is Python's \<^verbatim>\<open>None\<close>), and the attributes \<^verbatim>\<open>transform\<close> and \<^verbatim>\<open>info\<close> that
  \<^verbatim>\<open>Base3DProp.__init__\<close> provides.
\<close>

datatype landmark_mode = Similarity | RigidBody

record 'c assembly =
  actors :: pyval
  parts :: "ref list"
  base_anchor :: "'c option"
  top_anchor :: "'c option"
  transform :: "landmark_mode option"
  info :: "string \<rightharpoonup> 'c list"

text \<open>
  \<^verbatim>\<open>vtkAssembly.AddPart\<close> is the toolkit's method. It adds a renderable to the children of
  the composite node unless it is one of them already (\<open>add_item\<close>). The wrapper hands
  \<^verbatim>\<open>None\<close> over as a null pointer, on which the toolkit crashes, and rejects every other
  argument that is not a renderable with \<^verbatim>\<open>TypeError\<close>.
\<close>

definition add_item :: "ref list \<Rightarrow> ref \<Rightarrow> ref list" where
  "add_item ps r = (if r \<in> set ps then ps else ps @ [r])"

fun AddPart :: "ref list \<Rightarrow> pyval \<Rightarrow> error + ref list" where
  "AddPart ps (PObj r) = Inr (add_item ps r)"
| "AddPart ps PNone = Inl Crash"
| "AddPart ps _ = Inl TypeError"

text \<open>
  A value taken as a sequence, by \<^verbatim>\<open>len\<close>, by a \<^verbatim>\<open>for\<close> loop or by an index: a list is
  its elements, a string is the sequence of its one-character strings, and \<^verbatim>\<open>None\<close>, an
  integer and a renderable are no sequences (\<^verbatim>\<open>TypeError\<close>).
\<close>

fun as_sequence :: "pyval \<Rightarrow> error + pyval list" where
  "as_sequence (PList xs) = Inr xs"
| "as_sequence (PStr s) = Inr (map (\<lambda>c. PStr [c]) s)"
| "as_sequence _ = Inl TypeError"

text \<open>
  Lines 70 to 73: \<^verbatim>\<open>if len(meshs) == 1: meshs = meshs[0]\<close>, \<^verbatim>\<open>else: meshs = utils.flatten(meshs)\<close>,
  where \<^verbatim>\<open>meshs\<close> is the tuple of the positional arguments. The result is the value of
  \<^verbatim>\<open>meshs\<close> from there on, which line 75 assigns to \<^verbatim>\<open>self.actors\<close>: a single argument
  as it is, whatever it is.
\<close>

fun init_meshs :: "pyval list \<Rightarrow> pyval" where
  "init_meshs [m] = m"
| "init_meshs meshs = PList (flatten meshs)"

text \<open>\<^verbatim>\<open>meshs[0].base\<close> and \<^verbatim>\<open>meshs[0].top\<close> when \<^verbatim>\<open>hasattr(meshs[0], "top")\<close>.\<close>

fun anchors_of :: "'c world \<Rightarrow> pyval \<Rightarrow> ('c \<times> 'c) option" where
  "anchors_of w (PObj r) = anchors (store w r)"
| "anchors_of w _ = None"

text \<open>
  Lines 77 to 82: the pair of values assigned to \<^verbatim>\<open>self.base\<close> and \<^verbatim>\<open>self.top\<close>, from
  the elements of \<^verbatim>\<open>meshs\<close>.
\<close>

fun init_anchors :: "'c world \<Rightarrow> pyval list \<Rightarrow> 'c option \<times> 'c option" where
  "init_anchors w [] = (None, None)"
| "init_anchors w (m # ms) =
     (case anchors_of w m of
        Some (b, t) \<Rightarrow> (Some b, Some t)
      | None \<Rightarrow> (None, None))"

text \<open>Lines 84 to 86: \<^verbatim>\<open>for a in meshs: if a: self.AddPart(a)\<close>.\<close>

fun init_parts :: "ref list \<Rightarrow> pyval list \<Rightarrow> error + ref list" where
  "init_parts ps [] = Inr ps"
| "init_parts ps (a # as) =
     (if truthy a
      then (case AddPart ps a of Inl e \<Rightarrow> Inl e | Inr ps' \<Rightarrow> init_parts ps' as)
      else init_parts ps as)"

text \<open>
  \<^verbatim>\<open>Assembly.__init__(self, *meshs)\<close>. \<^verbatim>\<open>len(meshs)\<close> on line 77 is the first place where
  \<^verbatim>\<open>meshs\<close> is taken as a sequence. An exception leaves no assembly behind, so the
  constructor returns either the error or the new object.
\<close>

definition Assembly_init :: "'c world \<Rightarrow> pyval list \<Rightarrow> error + 'c assembly" where
  "Assembly_init w args =
     (case as_sequence (init_meshs args) of
        Inl e \<Rightarrow> Inl e
      | Inr elems \<Rightarrow>
          (case init_parts [] elems of
             Inl e \<Rightarrow> Inl e
           | Inr ps \<Rightarrow>
               Inr \<lparr>actors = init_meshs args, parts = ps,
                    base_anchor = fst (init_anchors w elems),
                    top_anchor = snd (init_anchors w elems),
                    transform = None, info = Map.empty\<rparr>))"

text \<open>
  \<^verbatim>\<open>Assembly.__add__\<close>: the loop \<^verbatim>\<open>for a in meshs: self.AddPart(a)\<close> keeps the parts it has
  registered when a later call fails, so the result is the failure, if any, together
  with the receiver as the call leaves it. Without a failure the method returns
  \<^verbatim>\<open>self\<close>, that is, the second component. \<^verbatim>\<open>isinstance(meshs, list)\<close> holds of a list
  only.
\<close>

fun add_each :: "ref list \<Rightarrow> pyval list \<Rightarrow> error option \<times> ref list" where
  "add_each ps [] = (None, ps)"
| "add_each ps (a # as) =
     (case AddPart ps a of Inl e \<Rightarrow> (Some e, ps) | Inr ps' \<Rightarrow> add_each ps' as)"

fun Assembly_add :: "'c assembly \<Rightarrow> pyval \<Rightarrow> error option \<times> 'c assembly" where
  "Assembly_add self (PList meshs) =
     (case add_each (parts self) meshs of (r, ps) \<Rightarrow> (r, self\<lparr>parts := ps\<rparr>))"
| "Assembly_add self meshs =
     (case AddPart (parts self) meshs of
        Inl e \<Rightarrow> (Some e, self)
      | Inr ps \<Rightarrow> (None, self\<lparr>parts := ps\<rparr>))"

text \<open>
  Python's \<^verbatim>\<open>x in ys\<close>. In a list it compares with \<^verbatim>\<open>is\<close> or \<^verbatim>\<open>==\<close>: renderables by
  identity, \<^verbatim>\<open>None\<close>, integers, strings and lists by value. In a string it is the
  substring test, for a string only. \<^verbatim>\<open>None\<close>, an integer and a renderable contain
  nothing: \<^verbatim>\<open>TypeError\<close>.
\<close>

fun py_in :: "pyval \<Rightarrow> pyval \<Rightarrow> error + bool" where
  "py_in x (PList ys) = Inr (x \<in> set ys)"
| "py_in (PStr t) (PStr s) = Inr (sublist t s)"
| "py_in x ys = Inl TypeError"

text \<open>\<^verbatim>\<open>Assembly.__contains__\<close>: \<^verbatim>\<open>name in self.actors\<close>.\<close>

definition Assembly_contains :: "'c assembly \<Rightarrow> pyval \<Rightarrow> error + bool" where
  "Assembly_contains self name = py_in name (actors self)"

text \<open>\<^verbatim>\<open>m.name\<close>: only a renderable that carries a name has the attribute.\<close>

fun name_of :: "'c world \<Rightarrow> pyval \<Rightarrow> error + string" where
  "name_of w (PObj r) =
     (case label (store w r) of None \<Rightarrow> Inl AttributeError | Some (n, f) \<Rightarrow> Inr n)"
| "name_of w _ = Inl AttributeError"

text \<open>
  Lines 124 to 127: \<^verbatim>\<open>for m in self.actors: if i in m.name: return m\<close>, then
  \<^verbatim>\<open>return None\<close>. On strings \<^verbatim>\<open>in\<close> is the substring test.
\<close>

fun unpack_str :: "'c world \<Rightarrow> string \<Rightarrow> pyval list \<Rightarrow> error + pyval" where
  "unpack_str w i [] = Inr PNone"
| "unpack_str w i (m # ms) =
     (case name_of w m of
        Inl e \<Rightarrow> Inl e
      | Inr n \<Rightarrow> if sublist i n then Inr m else unpack_str w i ms)"

text \<open>
  Indexing the elements of a sequence: a negative index counts from the end; out of range
  raises.
\<close>

definition getitem :: "pyval list \<Rightarrow> int \<Rightarrow> error + pyval" where
  "getitem xs i =
     (if 0 \<le> i \<and> i < int (length xs) then Inr (xs ! nat i)
      else if i < 0 \<and> - int (length xs) \<le> i then Inr (xs ! nat (int (length xs) + i))
      else Inl IndexError)"

text \<open>
  \<^verbatim>\<open>Assembly.unpack(self, i=None)\<close>: \<^verbatim>\<open>self.actors\<close> itself, \<^verbatim>\<open>self.actors[i]\<close>, or the
  loop over \<^verbatim>\<open>self.actors\<close>; any other selector falls through to \<^verbatim>\<open>return None\<close>.
\<close>

fun unpack :: "'c world \<Rightarrow> 'c assembly \<Rightarrow> pyval \<Rightarrow> error + pyval" where
  "unpack w self PNone = Inr (actors self)"
| "unpack w self (PInt i) =
     (case as_sequence (actors self) of Inl e \<Rightarrow> Inl e | Inr xs \<Rightarrow> getitem xs i)"
| "unpack w self (PStr i) =
     (case as_sequence (actors self) of Inl e \<Rightarrow> Inl e | Inr xs \<Rightarrow> unpack_str w i xs)"
| "unpack w self _ = Inr PNone"

text \<open>
  Modelled from the spec: \<^verbatim>\<open>a.clone()\<close> is the part's own method (\<^verbatim>\<open>Mesh.clone\<close> in
  \<^verbatim>\<open>vedo/mesh.py\<close>, not part of the source at hand). The specification calls the result a
  deep clone: a new object, distinct from its source, with equivalent content. Only a
  renderable has the method; on any other value the attribute lookup raises.
\<close>

fun clone_part :: "'c world \<Rightarrow> pyval \<Rightarrow> (error + pyval) \<times> 'c world" where
  "clone_part w (PObj r) = (case alloc w (store w r) of (r', w') \<Rightarrow> (Inr (PObj r'), w'))"
| "clone_part w _ = (Inl AttributeError, w)"

text \<open>Lines 104 to 106: \<^verbatim>\<open>for a in self.actors: newlist.append(a.clone())\<close>.\<close>

fun clone_loop :: "'c world \<Rightarrow> pyval list \<Rightarrow> pyval list \<Rightarrow> (error + pyval list) \<times> 'c world" where
  "clone_loop w newlist [] = (Inr newlist, w)"
| "clone_loop w newlist (a # as) =
     (case clone_part w a of
        (Inl e, w') \<Rightarrow> (Inl e, w')
      | (Inr c, w') \<Rightarrow> clone_loop w' (newlist @ [c]) as)"

text \<open>\<^verbatim>\<open>Assembly.clone\<close>: \<^verbatim>\<open>return Assembly(newlist)\<close>, one positional argument.\<close>

definition Assembly_clone :: "'c world \<Rightarrow> 'c assembly \<Rightarrow> (error + 'c assembly) \<times> 'c world" where
  "Assembly_clone w self =
     (case as_sequence (actors self) of
        Inl e \<Rightarrow> (Inl e, w)
      | Inr elems \<Rightarrow>
          (case clone_loop w [] elems of
             (Inl e, w') \<Rightarrow> (Inl e, w')
           | (Inr newlist, w') \<Rightarrow> (Assembly_init w' [PList newlist], w')))"

section \<open>procrustesAlignment\<close>

text \<open>
  What the toolkit's \<^verbatim>\<open>vtkProcrustesAlignmentFilter\<close> hands back after \<^verbatim>\<open>Update()\<close>:
  the aligned point set of block \<open>i\<close> (\<^verbatim>\<open>GetOutput().GetBlock(i)\<close>) and the mean points
  (\<^verbatim>\<open>GetMeanPoints().GetData()\<close>). The filter itself is a parameter of the model.
\<close>

record 'c procrustes_out =
  blocks :: "nat \<Rightarrow> 'c list"
  meanpoints :: "'c list"

text \<open>
  Lines 31 to 35: every source is compared with \<^verbatim>\<open>sources[0]\<close>; a source with another
  point count logs the error and raises, the others are added to the group. Reading
  \<^verbatim>\<open>N()\<close> and \<^verbatim>\<open>polydata()\<close> does not change the source.
\<close>

fun group_loop ::
  "'c world \<Rightarrow> ref \<Rightarrow> 'c list list \<Rightarrow> ref list \<Rightarrow> (error + 'c list list) \<times> 'c world" where
  "group_loop w s0 grp [] = (Inr grp, w)"
| "group_loop w s0 grp (source # rest) =
     (if N (store w s0) \<noteq> N (store w source)
      then (Inl RuntimeError,
            logger_error w ''in procrustesAlignment() sources have different nr of points'')
      else group_loop w s0 (grp @ [polydata (store w source)]) rest)"

text \<open>
  The first loop as a whole. \<^verbatim>\<open>sources[0]\<close> is read in the body of the loop only, so an
  empty list of sources passes without a look at its first element.
\<close>

fun group_sources :: "'c world \<Rightarrow> ref list \<Rightarrow> (error + 'c list list) \<times> 'c world" where
  "group_sources w [] = (Inr [], w)"
| "group_sources w (s0 # rest) = group_loop w s0 [] (s0 # rest)"

text \<open>
  Lines 45 to 51, one round of the second loop: \<^verbatim>\<open>Mesh(poly)\<close> makes a new object (the
  constructor \<open>mk\<close> is a parameter: \<^verbatim>\<open>vedo.mesh.Mesh\<close> is not part of the source at
  hand), which receives the source's property and, if the source has a name, its name and
  label text.
\<close>

definition wrap_output :: "('c list \<Rightarrow> 'c renderable) \<Rightarrow> 'c list \<Rightarrow> 'c renderable \<Rightarrow> 'c renderable" where
  "wrap_output mk poly s =
     (let mesh = (mk poly)\<lparr>property := property s\<rparr>
      in case label s of None \<Rightarrow> mesh | Some l \<Rightarrow> mesh\<lparr>label := Some l\<rparr>)"

fun wrap_loop ::
  "('c list \<Rightarrow> 'c renderable) \<Rightarrow> (nat \<Rightarrow> 'c list) \<Rightarrow> 'c world \<Rightarrow> nat \<Rightarrow> pyval list \<Rightarrow> ref list
     \<Rightarrow> pyval list \<times> 'c world" where
  "wrap_loop mk blk w i acts [] = (acts, w)"
| "wrap_loop mk blk w i acts (s # rest) =
     (case alloc w (wrap_output mk (blk i) (store w s)) of
        (mesh, w') \<Rightarrow> wrap_loop mk blk w' (Suc i) (acts @ [PObj mesh]) rest)"

text \<open>
  \<^verbatim>\<open>procrustesAlignment(sources, rigid=False)\<close>. \<open>filt\<close> is the toolkit's filter, run on
  the grouped point sets with the landmark transform in the given mode.
\<close>

definition procrustesAlignment ::
  "('c list \<Rightarrow> 'c renderable) \<Rightarrow> (landmark_mode \<Rightarrow> 'c list list \<Rightarrow> 'c procrustes_out)
     \<Rightarrow> 'c world \<Rightarrow> ref list \<Rightarrow> bool \<Rightarrow> (error + 'c assembly) \<times> 'c world" where
  "procrustesAlignment mk filt w sources rigid =
     (case group_sources w sources of
        (Inl e, w1) \<Rightarrow> (Inl e, w1)
      | (Inr grp, w1) \<Rightarrow>
          (let lt = (if rigid then RigidBody else Similarity);
               out = filt lt grp
           in case wrap_loop mk (blocks out) w1 0 [] sources of
                (acts, w2) \<Rightarrow>
                  (case Assembly_init w2 [PList acts] of
                     Inl e \<Rightarrow> (Inl e, w2)
                   | Inr assem \<Rightarrow>
                       (Inr (assem\<lparr>transform := Some lt,
                                   info := (info assem)(''mean'' \<mapsto> meanpoints out)\<rparr>), w2))))"

section \<open>A small scene for concrete evaluation\<close>

text \<open>
  Three renderables: \<open>example_a\<close> is named and has anchors, \<open>example_b\<close> has neither a
  name nor anchors, \<open>example_c\<close> has another point count. The store holds them at the
  references 0, 1 and 2.
\<close>

definition example_a :: "nat renderable" where
  "example_a = \<lparr>polydata = [10, 11, 12], property = 7,
                 label = Some (''abc'', ''left''), anchors = Some (10, 12)\<rparr>"

definition example_b :: "nat renderable" where
  "example_b = \<lparr>polydata = [20, 21, 22], property = 8, label = None, anchors = None\<rparr>"

definition example_c :: "nat renderable" where
  "example_c = \<lparr>polydata = [30, 31], property = 9, label = Some (''c'', ''''), anchors = None\<rparr>"

definition example_world :: "nat world" where
  "example_world =
     \<lparr>store = (\<lambda>r. example_b)(0 := example_a, 2 := example_c), nxt = 3, logged = []\<rparr>"

definition example_Mesh :: "nat list \<Rightarrow> nat renderable" where
  "example_Mesh poly = \<lparr>polydata = poly, property = 0, label = Some ('''', ''''), anchors = None\<rparr>"

definition example_filter :: "landmark_mode \<Rightarrow> nat list list \<Rightarrow> nat procrustes_out" where
  "example_filter lt grp =
     \<lparr>blocks = (\<lambda>i. map (\<lambda>p. p + 100) (grp ! i)), meanpoints = hd grp\<rparr>"


section \<open>The loops of procrustesAlignment\<close>

lemma group_loop_ok:
  "\<forall>s\<in>set srcs. N (store w s) = N (store w s0) \<Longrightarrow>
   group_loop w s0 grp srcs = (Inr (grp @ map (\<lambda>s. polydata (store w s)) srcs), w)"
  by (induction srcs arbitrary: grp) auto

lemma group_loop_mismatch:
  "\<exists>s\<in>set srcs. N (store w s) \<noteq> N (store w s0) \<Longrightarrow>
   group_loop w s0 grp srcs =
     (Inl RuntimeError,
      logger_error w ''in procrustesAlignment() sources have different nr of points'')"
  by (induction srcs arbitrary: grp) auto

lemma group_sources_ok:
  "\<forall>s\<in>set sources. N (store w s) = N (store w (hd sources)) \<Longrightarrow>
   group_sources w sources = (Inr (map (\<lambda>s. polydata (store w s)) sources), w)"
  using group_loop_ok[of sources w "hd sources" "[]"] by (cases sources) simp_all

lemma group_sources_mismatch:
  "\<exists>s\<in>set sources. N (store w s) \<noteq> N (store w (hd sources)) \<Longrightarrow>
   group_sources w sources =
     (Inl RuntimeError,
      logger_error w ''in procrustesAlignment() sources have different nr of points'')"
  using group_loop_mismatch[of sources w "hd sources" "[]"] by (cases sources) simp_all

lemma wrap_loop_acts:
  "fst (wrap_loop mk blk w i acts srcs) = acts @ map PObj [nxt w ..< nxt w + length srcs]"
proof (induction srcs arbitrary: w i acts)
  case Nil
  then show ?case by simp
next
  case (Cons s rest)
  have "[nxt w ..< nxt w + Suc (length rest)]
          = nxt w # [Suc (nxt w) ..< Suc (nxt w) + length rest]"
    by (simp add: upt_rec)
  then show ?case using Cons.IH
    by (simp add: alloc_def)
qed

lemma wrap_loop_nxt:
  "nxt (snd (wrap_loop mk blk w i acts srcs)) = nxt w + length srcs"
  by (induction srcs arbitrary: w i acts) (auto simp: alloc_def)

lemma wrap_loop_logged:
  "logged (snd (wrap_loop mk blk w i acts srcs)) = logged w"
  by (induction srcs arbitrary: w i acts) (auto simp: alloc_def)

lemma wrap_loop_frame:
  "r < nxt w \<Longrightarrow> store (snd (wrap_loop mk blk w i acts srcs)) r = store w r"
  by (induction srcs arbitrary: w i acts) (auto simp: alloc_def)

lemma wrap_loop_new:
  "k < length srcs \<Longrightarrow> \<forall>s\<in>set srcs. s < nxt w \<Longrightarrow>
   store (snd (wrap_loop mk blk w i acts srcs)) (nxt w + k)
     = wrap_output mk (blk (i + k)) (store w (srcs ! k))"
proof (induction srcs arbitrary: w i acts k)
  case Nil
  then show ?case by simp
next
  case (Cons s rest)
  let ?w' = "snd (alloc w (wrap_output mk (blk i) (store w s)))"
  have nx: "nxt ?w' = Suc (nxt w)" by (simp add: alloc_def)
  have st: "\<And>r. r < nxt w \<Longrightarrow> store ?w' r = store w r" by (simp add: alloc_def)
  show ?case
  proof (cases k)
    case 0
    have "store (snd (wrap_loop mk blk ?w' (Suc i) (acts @ [PObj (nxt w)]) rest)) (nxt w)
            = store ?w' (nxt w)"
      by (rule wrap_loop_frame) (simp add: nx)
    then show ?thesis using 0 by (simp add: alloc_def)
  next
    case (Suc j)
    have j: "j < length rest" using Cons.prems Suc by simp
    have al: "\<forall>s\<in>set rest. s < nxt ?w'" using Cons.prems nx by auto
    have "store (snd (wrap_loop mk blk ?w' (Suc i) (acts @ [PObj (nxt w)]) rest)) (nxt ?w' + j)
            = wrap_output mk (blk (Suc i + j)) (store ?w' (rest ! j))"
      by (rule Cons.IH[OF j al])
    moreover have "store ?w' (rest ! j) = store w (rest ! j)"
      using Cons.prems j by (intro st) auto
    ultimately show ?thesis using Suc nx by (simp add: alloc_def)
  qed
qed

section \<open>Registering parts\<close>

lemma set_add_item: "set (add_item ps r) = insert r (set ps)"
  by (auto simp: add_item_def)

lemma distinct_add_item: "distinct ps \<Longrightarrow> distinct (add_item ps r)"
  by (simp add: add_item_def)

lemma set_foldl_add_item: "set (foldl add_item ps rs) = set ps \<union> set rs"
  by (induction rs arbitrary: ps) (auto simp: set_add_item)

lemma distinct_foldl_add_item: "distinct ps \<Longrightarrow> distinct (foldl add_item ps rs)"
  by (induction rs arbitrary: ps) (auto simp: distinct_add_item)

lemma foldl_add_item_prefix: "prefix ps (foldl add_item ps rs)"
proof (induction rs arbitrary: ps)
  case Nil
  then show ?case by simp
next
  case (Cons r rs)
  have "prefix ps (add_item ps r)" by (simp add: add_item_def)
  with Cons.IH[of "add_item ps r"] show ?case
    by (auto intro: prefix_order.trans)
qed

lemma foldl_add_item_fresh:
  "distinct rs \<Longrightarrow> set rs \<inter> set ps = {} \<Longrightarrow> foldl add_item ps rs = ps @ rs"
  by (induction rs arbitrary: ps) (auto simp: add_item_def)

text \<open>The entries of a list, each once, in the order of their first occurrence.\<close>

lemma remdups_snoc: "remdups (ys @ [r]) = removeAll r (remdups ys) @ [r]"
  by (induction ys) auto

lemma first_occurrences_Cons:
  "rev (remdups (rev (r # rs))) = r # removeAll r (rev (remdups (rev rs)))"
  by (simp add: remdups_snoc removeAll_filter_not_eq rev_filter)

lemma foldl_add_item_closed:
  "foldl add_item ps rs = ps @ filter (\<lambda>r. r \<notin> set ps) (rev (remdups (rev rs)))"
proof (induction rs arbitrary: ps)
  case Nil
  then show ?case by simp
next
  case (Cons r rs)
  let ?f = "rev (remdups (rev rs))"
  have f: "rev (remdups (rev (r # rs))) = r # removeAll r ?f"
    by (rule first_occurrences_Cons)
  show ?case
  proof (cases "r \<in> set ps")
    case True
    then have "filter (\<lambda>r. r \<notin> set ps) (removeAll r ?f) = filter (\<lambda>r. r \<notin> set ps) ?f"
      by (auto simp: removeAll_filter_not_eq intro: filter_cong)
    with True Cons.IH[of ps] show ?thesis
      unfolding f by (simp add: add_item_def)
  next
    case False
    have "filter (\<lambda>x. x \<notin> set (ps @ [r])) ?f = filter (\<lambda>x. x \<notin> set ps) (removeAll r ?f)"
      by (auto simp: removeAll_filter_not_eq intro: filter_cong)
    with False Cons.IH[of "ps @ [r]"] show ?thesis
      unfolding f by (simp add: add_item_def)
  qed
qed

lemma add_each_objs: "add_each ps (map PObj rs) = (None, foldl add_item ps rs)"
  by (induction rs arbitrary: ps) auto

lemma init_parts_objs: "init_parts ps (map PObj rs) = Inr (foldl add_item ps rs)"
  by (induction rs arbitrary: ps) auto

lemma AddPart_truthy:
  "truthy a \<Longrightarrow> AddPart ps a = (case a of PObj r \<Rightarrow> Inr (add_item ps r) | _ \<Rightarrow> Inl TypeError)"
  by (cases a) auto

lemma init_parts_Inr:
  "init_parts ps xs = Inr ps' \<Longrightarrow>
   \<exists>rs. filter truthy xs = map PObj rs \<and> ps' = foldl add_item ps rs"
proof (induction xs arbitrary: ps)
  case Nil
  then show ?case by simp
next
  case (Cons a as)
  show ?case
  proof (cases "truthy a")
    case True
    with Cons.prems obtain q where q: "a = PObj q"
      by (cases a) (auto split: sum.splits)
    with Cons.prems have "init_parts (add_item ps q) as = Inr ps'" by simp
    from Cons.IH[OF this] obtain rs where
      "filter truthy as = map PObj rs" "ps' = foldl add_item (add_item ps q) rs" by blast
    then have "filter truthy (a # as) = map PObj (q # rs) \<and> ps' = foldl add_item ps (q # rs)"
      using q by simp
    then show ?thesis by (rule exI[of _ "q # rs"])
  next
    case False
    with Cons.prems have "init_parts ps as = Inr ps'" by simp
    from Cons.IH[OF this] show ?thesis using False by simp
  qed
qed

lemma init_parts_ok:
  "\<forall>x\<in>set xs. truthy x \<longrightarrow> (\<exists>r. x = PObj r) \<Longrightarrow> \<exists>ps'. init_parts ps xs = Inr ps'"
  by (induction xs arbitrary: ps) auto

lemma init_parts_fails:
  "\<exists>x\<in>set xs. truthy x \<and> (\<forall>r. x \<noteq> PObj r) \<Longrightarrow> init_parts ps xs = Inl TypeError"
proof (induction xs arbitrary: ps)
  case Nil
  then show ?case by simp
next
  case (Cons a as)
  show ?case
  proof (cases "truthy a")
    case True
    show ?thesis
    proof (cases "\<exists>r. a = PObj r")
      case True
      then obtain q where q: "a = PObj q" by blast
      with Cons.prems have "\<exists>x\<in>set as. truthy x \<and> (\<forall>r. x \<noteq> PObj r)" by auto
      from Cons.IH[OF this] show ?thesis using q by simp
    next
      case False
      with \<open>truthy a\<close> show ?thesis by (cases a) auto
    qed
  next
    case False
    with Cons.prems have "\<exists>x\<in>set as. truthy x \<and> (\<forall>r. x \<noteq> PObj r)" by auto
    from Cons.IH[OF this] show ?thesis using False by simp
  qed
qed

section \<open>The constructor\<close>

lemma Assembly_init_Inr:
  "Assembly_init w args = Inr self \<Longrightarrow>
   actors self = init_meshs args
   \<and> (\<exists>elems. as_sequence (init_meshs args) = Inr elems \<and> init_parts [] elems = Inr (parts self))"
  by (auto simp: Assembly_init_def split: sum.splits)

lemma Assembly_init_ok:
  "as_sequence (init_meshs args) = Inr elems \<Longrightarrow> init_parts [] elems = Inr ps \<Longrightarrow>
   Assembly_init w args =
     Inr \<lparr>actors = init_meshs args, parts = ps,
          base_anchor = fst (init_anchors w elems), top_anchor = snd (init_anchors w elems),
          transform = None, info = Map.empty\<rparr>"
  by (simp add: Assembly_init_def)

lemma Assembly_init_objs:
  "distinct rs \<Longrightarrow>
   Assembly_init w [PList (map PObj rs)] =
     Inr \<lparr>actors = PList (map PObj rs), parts = rs,
          base_anchor = fst (init_anchors w (map PObj rs)),
          top_anchor = snd (init_anchors w (map PObj rs)),
          transform = None, info = Map.empty\<rparr>"
  by (simp add: Assembly_init_def init_parts_objs foldl_add_item_fresh)

lemma init_meshs_variadic: "length args \<noteq> 1 \<Longrightarrow> init_meshs args = PList (flatten args)"
  by (cases args rule: init_meshs.cases) auto

lemma flatten_flat: "PList ys \<notin> set (flatten xs)"
  by (induction xs rule: flatten.induct) auto

section \<open>Properties of procrustesAlignment\<close>

lemma procrustesAlignment_returns:
  assumes "\<forall>s\<in>set sources. N (store w s) = N (store w (hd sources))"
  shows "procrustesAlignment mk filt w sources rigid =
      (Inr \<lparr>actors = PList (map PObj [nxt w ..< nxt w + length sources]),
            parts = [nxt w ..< nxt w + length sources],
            base_anchor = fst (init_anchors
               (snd (wrap_loop mk (blocks (filt (if rigid then RigidBody else Similarity)
                  (map (\<lambda>s. polydata (store w s)) sources))) w 0 [] sources))
               (map PObj [nxt w ..< nxt w + length sources])),
            top_anchor = snd (init_anchors
               (snd (wrap_loop mk (blocks (filt (if rigid then RigidBody else Similarity)
                  (map (\<lambda>s. polydata (store w s)) sources))) w 0 [] sources))
               (map PObj [nxt w ..< nxt w + length sources])),
            transform = Some (if rigid then RigidBody else Similarity),
            info = [''mean'' \<mapsto> meanpoints (filt (if rigid then RigidBody else Similarity)
                  (map (\<lambda>s. polydata (store w s)) sources))]\<rparr>,
       snd (wrap_loop mk (blocks (filt (if rigid then RigidBody else Similarity)
                  (map (\<lambda>s. polydata (store w s)) sources))) w 0 [] sources))"
proof -
  let ?lt = "if rigid then RigidBody else Similarity"
  let ?out = "filt ?lt (map (\<lambda>s. polydata (store w s)) sources)"
  let ?wl = "wrap_loop mk (blocks ?out) w 0 [] sources"
  let ?rs = "[nxt w ..< nxt w + length sources]"
  have g: "group_sources w sources = (Inr (map (\<lambda>s. polydata (store w s)) sources), w)"
    by (rule group_sources_ok[OF assms])
  have a: "fst ?wl = map PObj ?rs" by (simp add: wrap_loop_acts)
  obtain acts w2 where wl: "?wl = (acts, w2)" by (cases ?wl)
  have acts: "acts = map PObj ?rs" using a wl by simp
  have d: "distinct ?rs" by simp
  show ?thesis
    unfolding procrustesAlignment_def g using wl acts
    by (simp add: Let_def Assembly_init_objs[OF d])
qed

lemma procrustesAlignment_store_frame:
  assumes "r < nxt w"
  shows "store (snd (procrustesAlignment mk filt w sources rigid)) r = store w r"
proof (cases "\<forall>s\<in>set sources. N (store w s) = N (store w (hd sources))")
  case True
  show ?thesis
    unfolding procrustesAlignment_returns[OF True] using assms
    by (simp add: wrap_loop_frame)
next
  case False
  then have "\<exists>s\<in>set sources. N (store w s) \<noteq> N (store w (hd sources))" by blast
  then show ?thesis
    by (simp add: procrustesAlignment_def group_sources_mismatch logger_error_def)
qed

text \<open>
  Claim C1. For a non-empty list of sources, all existing objects with the same point
  count, \<^verbatim>\<open>procrustesAlignment\<close> returns an assembly whose stored sequence and registered
  parts have as many entries as there are sources, in the order of the sources: entry
  \<open>i\<close> is the \<open>i\<close>-th object created by the call, and that object wraps block \<open>i\<close> of
  the filter's output with the property and the name of source \<open>i\<close>.
\<close>

theorem procrustesAlignment_parts_in_order:
  assumes "sources \<noteq> []"
    and "\<forall>s\<in>set sources. s < nxt w"
    and "\<forall>s\<in>set sources. N (store w s) = N (store w (hd sources))"
  shows "\<exists>assem w' acts. procrustesAlignment mk filt w sources rigid = (Inr assem, w')
     \<and> actors assem = PList acts
     \<and> length acts = length sources
     \<and> length (parts assem) = length sources
     \<and> (\<forall>i<length sources.
           acts ! i = PObj (nxt w + i) \<and> parts assem ! i = nxt w + i
           \<and> store w' (nxt w + i) =
               wrap_output mk
                 (blocks (filt (if rigid then RigidBody else Similarity)
                            (map (\<lambda>s. polydata (store w s)) sources)) i)
                 (store w (sources ! i)))"
proof -
  let ?out = "filt (if rigid then RigidBody else Similarity) (map (\<lambda>s. polydata (store w s)) sources)"
  have new: "\<And>i. i < length sources \<Longrightarrow>
      store (snd (wrap_loop mk (blocks ?out) w 0 [] sources)) (nxt w + i)
        = wrap_output mk (blocks ?out i) (store w (sources ! i))"
    using wrap_loop_new[OF _ assms(2), of _ mk "blocks ?out" 0 "[]"] by simp
  show ?thesis
    unfolding procrustesAlignment_returns[OF assms(3)] using new by simp
qed

theorem procrustesAlignment_parts_in_order_witness:
  "N (store example_world 1) = N (store example_world 0)
   \<and> (\<exists>assem w' acts. procrustesAlignment example_Mesh example_filter example_world [0, 1] False
          = (Inr assem, w')
        \<and> actors assem = PList acts \<and> length acts = 2 \<and> length (parts assem) = 2
        \<and> acts ! 0 = PObj 3 \<and> acts ! 1 = PObj 4
        \<and> polydata (store w' 3) = [110, 111, 112] \<and> label (store w' 3) = Some (''abc'', ''left'')
        \<and> polydata (store w' 4) = [120, 121, 122] \<and> property (store w' 4) = 8)"
proof -
  have h1: "[0, 1] \<noteq> ([]::nat list)" by simp
  have h2: "\<forall>s\<in>set [0, 1]. s < nxt example_world" by (simp add: example_world_def)
  have h3: "\<forall>s\<in>set [0, 1]. N (store example_world s) = N (store example_world (hd [0, 1]))"
    by (simp add: example_world_def example_a_def example_b_def N_def)
  from procrustesAlignment_parts_in_order[OF h1 h2 h3, of example_Mesh example_filter False]
  obtain assem w' acts where
    r: "procrustesAlignment example_Mesh example_filter example_world [0, 1] False = (Inr assem, w')"
    and l: "actors assem = PList acts" "length acts = length [0::nat, 1]"
      "length (parts assem) = length [0::nat, 1]"
    and e: "\<forall>i<length [0::nat, 1].
           acts ! i = PObj (nxt example_world + i) \<and> parts assem ! i = nxt example_world + i
           \<and> store w' (nxt example_world + i) =
               wrap_output example_Mesh
                 (blocks (example_filter (if False then RigidBody else Similarity)
                            (map (\<lambda>s. polydata (store example_world s)) [0, 1])) i)
                 (store example_world ([0, 1] ! i))"
    by blast
  have e0: "acts ! 0 = PObj 3" "polydata (store w' 3) = [110, 111, 112]"
      "label (store w' 3) = Some (''abc'', ''left'')"
    using e[rule_format, of 0]
    by (simp_all add: example_world_def example_a_def example_b_def example_Mesh_def
          example_filter_def wrap_output_def)
  have e1: "acts ! 1 = PObj 4" "polydata (store w' 4) = [120, 121, 122]"
      "property (store w' 4) = 8"
    using e[rule_format, of 1]
    by (simp_all add: example_world_def example_a_def example_b_def example_Mesh_def
          example_filter_def wrap_output_def)
  have n: "N (store example_world 1) = N (store example_world 0)" using h3 by simp
  show ?thesis using n r l e0 e1 by simp
qed

text \<open>
  Claim C2. When some source has a point count other than that of the first source,
  \<^verbatim>\<open>procrustesAlignment\<close> raises \<^verbatim>\<open>RuntimeError\<close>: no assembly is returned, no object has
  been created, and the only trace of the call is the logged error message.
\<close>

theorem procrustesAlignment_mismatch_raises:
  assumes "\<exists>s\<in>set sources. N (store w s) \<noteq> N (store w (hd sources))"
  shows "procrustesAlignment mk filt w sources rigid =
           (Inl RuntimeError,
            logger_error w ''in procrustesAlignment() sources have different nr of points'')"
  unfolding procrustesAlignment_def group_sources_mismatch[OF assms] by simp

theorem procrustesAlignment_mismatch_raises_witness:
  "(\<exists>s\<in>set [0, 2]. N (store example_world s) \<noteq> N (store example_world (hd [0, 2])))
   \<and> procrustesAlignment example_Mesh example_filter example_world [0, 2] True =
       (Inl RuntimeError,
        example_world\<lparr>logged := [''in procrustesAlignment() sources have different nr of points'']\<rparr>)"
proof -
  have h: "\<exists>s\<in>set [0, 2]. N (store example_world s) \<noteq> N (store example_world (hd [0, 2]))"
    by (simp add: example_world_def example_a_def example_c_def N_def)
  show ?thesis
    using h procrustesAlignment_mismatch_raises[OF h, of example_Mesh example_filter True]
    by (simp add: logger_error_def example_world_def)
qed

text \<open>
  Claim C8, as the code has it. Creating objects is not the only effect of
  \<^verbatim>\<open>procrustesAlignment\<close>: with sources of different point counts the call logs an error
  message (line 33) and creates no object at all.
\<close>

theorem procrustesAlignment_logs_counterexample:
  "fst (procrustesAlignment example_Mesh example_filter example_world [0, 2] False)
     = Inl RuntimeError
   \<and> nxt (snd (procrustesAlignment example_Mesh example_filter example_world [0, 2] False))
     = nxt example_world
   \<and> logged example_world = []
   \<and> logged (snd (procrustesAlignment example_Mesh example_filter example_world [0, 2] False))
     = [''in procrustesAlignment() sources have different nr of points'']"
proof -
  have h: "\<exists>s\<in>set [0, 2]. N (store example_world s) \<noteq> N (store example_world (hd [0, 2]))"
    by (simp add: example_world_def example_a_def example_c_def N_def)
  have p: "procrustesAlignment example_Mesh example_filter example_world [0, 2] False =
      (Inl RuntimeError,
       logger_error example_world
         ''in procrustesAlignment() sources have different nr of points'')"
    unfolding procrustesAlignment_def group_sources_mismatch[OF h] by simp
  show ?thesis
    unfolding p by (simp add: logger_error_def example_world_def)
qed

text \<open>
  Claim C8, amended. \<^verbatim>\<open>procrustesAlignment\<close> does not change any object that existed
  before the call, whatever the sources are and whether it returns or raises: point set,
  name and property of every such object, the sources among them, are as before. When
  the point counts agree the call returns and its only effect is the creation of one new
  object per source; nothing is logged. When they do not agree the call raises, creates
  no object, and its only effect is the logged error message.
\<close>

theorem procrustesAlignment_effects:
  "(\<forall>r. r < nxt w \<longrightarrow>
        store (snd (procrustesAlignment mk filt w sources rigid)) r = store w r)
   \<and> ((\<forall>s\<in>set sources. N (store w s) = N (store w (hd sources))) \<longrightarrow>
        (\<exists>assem. fst (procrustesAlignment mk filt w sources rigid) = Inr assem)
        \<and> logged (snd (procrustesAlignment mk filt w sources rigid)) = logged w
        \<and> nxt (snd (procrustesAlignment mk filt w sources rigid)) = nxt w + length sources)
   \<and> ((\<exists>s\<in>set sources. N (store w s) \<noteq> N (store w (hd sources))) \<longrightarrow>
        fst (procrustesAlignment mk filt w sources rigid) = Inl RuntimeError
        \<and> store (snd (procrustesAlignment mk filt w sources rigid)) = store w
        \<and> nxt (snd (procrustesAlignment mk filt w sources rigid)) = nxt w
        \<and> logged (snd (procrustesAlignment mk filt w sources rigid)) =
            logged w @ [''in procrustesAlignment() sources have different nr of points''])"
proof (intro conjI allI impI)
  fix r assume "r < nxt w"
  then show "store (snd (procrustesAlignment mk filt w sources rigid)) r = store w r"
    by (rule procrustesAlignment_store_frame)
next
  assume a: "\<forall>s\<in>set sources. N (store w s) = N (store w (hd sources))"
  show "\<exists>assem. fst (procrustesAlignment mk filt w sources rigid) = Inr assem"
    unfolding procrustesAlignment_returns[OF a] by simp
  show "logged (snd (procrustesAlignment mk filt w sources rigid)) = logged w"
    unfolding procrustesAlignment_returns[OF a] by (simp add: wrap_loop_logged)
  show "nxt (snd (procrustesAlignment mk filt w sources rigid)) = nxt w + length sources"
    unfolding procrustesAlignment_returns[OF a] by (simp add: wrap_loop_nxt)
next
  assume a: "\<exists>s\<in>set sources. N (store w s) \<noteq> N (store w (hd sources))"
  have p: "procrustesAlignment mk filt w sources rigid =
      (Inl RuntimeError,
       logger_error w ''in procrustesAlignment() sources have different nr of points'')"
    unfolding procrustesAlignment_def group_sources_mismatch[OF a] by simp
  show "fst (procrustesAlignment mk filt w sources rigid) = Inl RuntimeError"
    unfolding p by simp
  show "store (snd (procrustesAlignment mk filt w sources rigid)) = store w"
    unfolding p by (simp add: logger_error_def)
  show "nxt (snd (procrustesAlignment mk filt w sources rigid)) = nxt w"
    unfolding p by (simp add: logger_error_def)
  show "logged (snd (procrustesAlignment mk filt w sources rigid)) =
      logged w @ [''in procrustesAlignment() sources have different nr of points'']"
    unfolding p by (simp add: logger_error_def)
qed

theorem procrustesAlignment_effects_witness:
  "store (snd (procrustesAlignment example_Mesh example_filter example_world [0, 1] False)) 0
     = example_a
   \<and> store (snd (procrustesAlignment example_Mesh example_filter example_world [0, 1] False)) 1
     = example_b
   \<and> (\<exists>assem. fst (procrustesAlignment example_Mesh example_filter example_world [0, 1] False)
         = Inr assem)
   \<and> logged (snd (procrustesAlignment example_Mesh example_filter example_world [0, 1] False)) = []
   \<and> nxt (snd (procrustesAlignment example_Mesh example_filter example_world [0, 1] False)) = 5
   \<and> store (snd (procrustesAlignment example_Mesh example_filter example_world [0, 2] False)) 2
     = example_c
   \<and> nxt (snd (procrustesAlignment example_Mesh example_filter example_world [0, 2] False)) = 3"
proof -
  have ok: "\<forall>s\<in>set [0, 1]. N (store example_world s) = N (store example_world (hd [0, 1]))"
    by (simp add: example_world_def example_a_def example_b_def N_def)
  have bad: "\<exists>s\<in>set [0, 2]. N (store example_world s) \<noteq> N (store example_world (hd [0, 2]))"
    by (simp add: example_world_def example_a_def example_c_def N_def)
  have n: "(0::nat) < nxt example_world" "1 < nxt example_world" "2 < nxt example_world"
    by (simp_all add: example_world_def)
  note e1 = procrustesAlignment_effects[of example_world example_Mesh example_filter "[0, 1]" False]
  note e2 = procrustesAlignment_effects[of example_world example_Mesh example_filter "[0, 2]" False]
  have a: "store (snd (procrustesAlignment example_Mesh example_filter example_world [0, 1] False)) 0
     = example_a"
    using e1 n(1) by (simp add: example_world_def)
  have b: "store (snd (procrustesAlignment example_Mesh example_filter example_world [0, 1] False)) 1
     = example_b"
    using e1 n(2) by (simp add: example_world_def)
  have c: "(\<exists>assem. fst (procrustesAlignment example_Mesh example_filter example_world [0, 1] False)
         = Inr assem)
     \<and> logged (snd (procrustesAlignment example_Mesh example_filter example_world [0, 1] False)) = []
     \<and> nxt (snd (procrustesAlignment example_Mesh example_filter example_world [0, 1] False)) = 5"
    using e1 ok by (simp add: example_world_def)
  have d: "store (snd (procrustesAlignment example_Mesh example_filter example_world [0, 2] False)) 2
     = example_c"
    using e2 n(3) by (simp add: example_world_def)
  have e: "nxt (snd (procrustesAlignment example_Mesh example_filter example_world [0, 2] False)) = 3"
    using e2 bad by (simp add: example_world_def)
  from a b c d e show ?thesis by simp
qed

section \<open>Properties of the constructor\<close>

text \<open>
  Claim C3, as the code has it. The constructor flattens only when it is given no or at
  least two positional arguments; a single argument is itself taken as the sequence, so a
  list nested in it stays an entry of \<^verbatim>\<open>actors\<close>. On the claim's own example, the single
  argument \<^verbatim>\<open>[[a, b], c]\<close>, the value assigned to \<^verbatim>\<open>actors\<close> is \<^verbatim>\<open>[[a, b], c]\<close>, and the
  constructor then fails when the inner list reaches \<^verbatim>\<open>AddPart\<close>; with an empty inner
  list the constructor returns and the stored sequence is not flat.
\<close>

theorem Assembly_init_single_nested_counterexample:
  "init_meshs [PList [PList [PObj 0, PObj 1], PObj 2]] = PList [PList [PObj 0, PObj 1], PObj 2]
   \<and> Assembly_init example_world [PList [PList [PObj 0, PObj 1], PObj 2]] = Inl TypeError
   \<and> Assembly_init example_world [PList [PList [], PObj 2]] =
        Inr \<lparr>actors = PList [PList [], PObj 2], parts = [2], base_anchor = None,
             top_anchor = None, transform = None, info = Map.empty\<rparr>"
  by (simp add: Assembly_init_def add_item_def)

text \<open>
  Claim C3, amended. Given no or at least two positional arguments whose truthy leaves are
  all renderables, the constructor returns an assembly that stores the flattened sequence
  of the arguments, in order, with no list left in it. A single argument is never
  flattened: whenever the constructor returns, \<^verbatim>\<open>actors\<close> is that argument as given. For
  a single list whose truthy entries are all renderables it does return, so an empty
  list nested in it stays an entry; for a single list with a truthy entry that is not a
  renderable, such as the inner list of \<^verbatim>\<open>[[a, b], c]\<close>, it raises \<^verbatim>\<open>TypeError\<close> and no
  assembly is produced.
\<close>

theorem Assembly_init_stored_sequence:
  "(length args \<noteq> 1 \<and> (\<forall>x\<in>set (flatten args). truthy x \<longrightarrow> (\<exists>r. x = PObj r))
      \<longrightarrow> (\<exists>self. Assembly_init w args = Inr self \<and> actors self = PList (flatten args)
             \<and> (\<forall>ys. PList ys \<notin> set (flatten args))))
   \<and> (\<forall>self. Assembly_init w [m] = Inr self \<longrightarrow> actors self = m)
   \<and> ((\<forall>x\<in>set xs. truthy x \<longrightarrow> (\<exists>r. x = PObj r))
      \<longrightarrow> (\<exists>self. Assembly_init w [PList xs] = Inr self \<and> actors self = PList xs))
   \<and> ((\<exists>x\<in>set xs. truthy x \<and> (\<forall>r. x \<noteq> PObj r))
      \<longrightarrow> Assembly_init w [PList xs] = Inl TypeError)"
proof (intro conjI impI allI)
  assume a: "length args \<noteq> 1 \<and> (\<forall>x\<in>set (flatten args). truthy x \<longrightarrow> (\<exists>r. x = PObj r))"
  then have m: "as_sequence (init_meshs args) = Inr (flatten args)"
    by (simp add: init_meshs_variadic)
  from a obtain ps where "init_parts [] (flatten args) = Inr ps"
    using init_parts_ok[of "flatten args" "[]"] by blast
  from Assembly_init_ok[OF m this, of w] a
  show "\<exists>self. Assembly_init w args = Inr self \<and> actors self = PList (flatten args)
          \<and> (\<forall>ys. PList ys \<notin> set (flatten args))"
    by (simp add: flatten_flat init_meshs_variadic)
next
  fix self assume "Assembly_init w [m] = Inr self"
  from Assembly_init_Inr[OF this] show "actors self = m" by simp
next
  assume a: "\<forall>x\<in>set xs. truthy x \<longrightarrow> (\<exists>r. x = PObj r)"
  have m: "as_sequence (init_meshs [PList xs]) = Inr xs" by simp
  from a obtain ps where "init_parts [] xs = Inr ps"
    using init_parts_ok[of xs "[]"] by blast
  from Assembly_init_ok[OF m this, of w]
  show "\<exists>self. Assembly_init w [PList xs] = Inr self \<and> actors self = PList xs"
    by simp
next
  assume "\<exists>x\<in>set xs. truthy x \<and> (\<forall>r. x \<noteq> PObj r)"
  from init_parts_fails[OF this, of "[]"]
  show "Assembly_init w [PList xs] = Inl TypeError"
    by (simp add: Assembly_init_def)
qed

theorem Assembly_init_stored_sequence_witness:
  "(\<exists>self. Assembly_init example_world [PList [PObj 0, PObj 1], PObj 2] = Inr self
          \<and> actors self = PList [PObj 0, PObj 1, PObj 2])
   \<and> (\<exists>self. Assembly_init example_world [PList [PList [], PObj 2]] = Inr self
          \<and> actors self = PList [PList [], PObj 2])
   \<and> Assembly_init example_world [PList [PList [PObj 0, PObj 1], PObj 2]] = Inl TypeError"
proof -
  have "length [PList [PObj 0, PObj 1], PObj 2] \<noteq> 1
        \<and> (\<forall>x\<in>set (flatten [PList [PObj 0, PObj 1], PObj 2]). truthy x \<longrightarrow> (\<exists>r. x = PObj r))"
    by simp
  with Assembly_init_stored_sequence[of "[PList [PObj 0, PObj 1], PObj 2]" example_world PNone "[]"]
  have 1: "\<exists>self. Assembly_init example_world [PList [PObj 0, PObj 1], PObj 2] = Inr self
          \<and> actors self = PList [PObj 0, PObj 1, PObj 2]"
    by auto
  have "\<forall>x\<in>set [PList [], PObj 2]. truthy x \<longrightarrow> (\<exists>r. x = PObj r)"
    by simp
  with Assembly_init_stored_sequence[of "[]" example_world PNone "[PList [], PObj 2]"]
  have 2: "\<exists>self. Assembly_init example_world [PList [PList [], PObj 2]] = Inr self
          \<and> actors self = PList [PList [], PObj 2]"
    by blast
  have "\<exists>x\<in>set [PList [PObj 0, PObj 1], PObj 2]. truthy x \<and> (\<forall>r. x \<noteq> PObj r)"
    by simp
  with Assembly_init_stored_sequence[of "[]" example_world PNone "[PList [PObj 0, PObj 1], PObj 2]"]
  have 3: "Assembly_init example_world [PList [PList [PObj 0, PObj 1], PObj 2]] = Inl TypeError"
    by blast
  from 1 2 3 show ?thesis by blast
qed

text \<open>
  Claim C4. When the constructor has a non-empty sequence \<open>m # ms\<close> and its loop over the
  parts goes through, it returns an assembly: the step that sets \<^verbatim>\<open>base\<close> and \<^verbatim>\<open>top\<close> does
  not fail. If the first element \<open>m\<close> exposes the reference points, both are copied onto
  the assembly; otherwise both are \<^verbatim>\<open>None\<close>.
\<close>

theorem Assembly_init_base_top:
  assumes "as_sequence (init_meshs args) = Inr (m # ms)"
    and "init_parts [] (m # ms) = Inr ps"
  shows "\<exists>self. Assembly_init w args = Inr self
     \<and> (\<forall>b t. anchors_of w m = Some (b, t)
            \<longrightarrow> base_anchor self = Some b \<and> top_anchor self = Some t)
     \<and> (anchors_of w m = None \<longrightarrow> base_anchor self = None \<and> top_anchor self = None)"
  using Assembly_init_ok[OF assms, of w] by auto

theorem Assembly_init_base_top_witness:
  "(\<exists>self. Assembly_init example_world [PList [PObj 0, PObj 1]] = Inr self
        \<and> base_anchor self = Some 10 \<and> top_anchor self = Some 12)
   \<and> (\<exists>self. Assembly_init example_world [PList [PObj 1, PObj 0]] = Inr self
        \<and> base_anchor self = None \<and> top_anchor self = None)
   \<and> (\<exists>self. Assembly_init example_world [PList [PNone, PObj 0]] = Inr self
        \<and> base_anchor self = None \<and> top_anchor self = None)"
proof -
  have a: "anchors_of example_world (PObj 0) = Some (10, 12)"
      "anchors_of example_world (PObj 1) = None" "anchors_of example_world PNone = None"
    by (simp_all add: example_world_def example_a_def example_b_def)
  have 1: "as_sequence (init_meshs [PList [PObj 0, PObj 1]]) = Inr (PObj 0 # [PObj 1])"
      "init_parts [] (PObj 0 # [PObj 1]) = Inr [0, 1]" by (simp_all add: add_item_def)
  have 2: "as_sequence (init_meshs [PList [PObj 1, PObj 0]]) = Inr (PObj 1 # [PObj 0])"
      "init_parts [] (PObj 1 # [PObj 0]) = Inr [1, 0]" by (simp_all add: add_item_def)
  have 3: "as_sequence (init_meshs [PList [PNone, PObj 0]]) = Inr (PNone # [PObj 0])"
      "init_parts [] (PNone # [PObj 0]) = Inr [0]" by (simp_all add: add_item_def)
  show ?thesis
    using Assembly_init_base_top[OF 1, of example_world]
      Assembly_init_base_top[OF 2, of example_world]
      Assembly_init_base_top[OF 3, of example_world] a
    by simp
qed

text \<open>
  Claim C10. Whenever the constructor returns an assembly, \<^verbatim>\<open>actors\<close> is the whole
  sequence it was given, falsy entries included, and \<^verbatim>\<open>unpack()\<close> returns it. The
  registered parts are the truthy entries only, all of them renderables, each once and in
  the order of its first occurrence (the toolkit skips a part that is registered
  already); no falsy entry is a registered part.
\<close>

theorem Assembly_init_keeps_falsy:
  assumes "Assembly_init w args = Inr self"
  shows "actors self = init_meshs args
     \<and> unpack w' self PNone = Inr (init_meshs args)
     \<and> (\<exists>elems rs. as_sequence (actors self) = Inr elems
           \<and> filter truthy elems = map PObj rs
           \<and> parts self = rev (remdups (rev rs))
           \<and> PObj ` set (parts self) = {a \<in> set elems. truthy a}
           \<and> (\<forall>a\<in>set elems. \<not> truthy a \<longrightarrow> a \<notin> PObj ` set (parts self)))"
proof -
  from Assembly_init_Inr[OF assms] obtain elems where
    m: "actors self = init_meshs args" and s: "as_sequence (init_meshs args) = Inr elems"
    and p: "init_parts [] elems = Inr (parts self)"
    by blast
  from init_parts_Inr[OF p] obtain rs where
    f: "filter truthy elems = map PObj rs" and q: "parts self = foldl add_item [] rs"
    by blast
  have c: "parts self = rev (remdups (rev rs))"
    using q foldl_add_item_closed[of "[]" rs] by simp
  have "PObj ` set (parts self) = set (map PObj rs)"
    using c by simp
  then have e: "PObj ` set (parts self) = {a \<in> set elems. truthy a}"
    using f[symmetric] by simp
  then have n: "\<forall>a\<in>set elems. \<not> truthy a \<longrightarrow> a \<notin> PObj ` set (parts self)"
    by blast
  have "as_sequence (actors self) = Inr elems \<and> filter truthy elems = map PObj rs
      \<and> parts self = rev (remdups (rev rs))
      \<and> PObj ` set (parts self) = {a \<in> set elems. truthy a}
      \<and> (\<forall>a\<in>set elems. \<not> truthy a \<longrightarrow> a \<notin> PObj ` set (parts self))"
    using m s f c e n by simp
  then have "\<exists>elems rs. as_sequence (actors self) = Inr elems \<and> filter truthy elems = map PObj rs
      \<and> parts self = rev (remdups (rev rs))
      \<and> PObj ` set (parts self) = {a \<in> set elems. truthy a}
      \<and> (\<forall>a\<in>set elems. \<not> truthy a \<longrightarrow> a \<notin> PObj ` set (parts self))"
    by blast
  with m show ?thesis by simp
qed

theorem Assembly_init_keeps_falsy_witness:
  "Assembly_init example_world [PList [PObj 0, PNone, PList [], PObj 2, PObj 0]] =
     Inr \<lparr>actors = PList [PObj 0, PNone, PList [], PObj 2, PObj 0], parts = [0, 2],
          base_anchor = Some 10, top_anchor = Some 12, transform = None, info = Map.empty\<rparr>
   \<and> unpack example_world
        \<lparr>actors = PList [PObj 0, PNone, PList [], PObj 2, PObj 0], parts = [0, 2],
         base_anchor = Some 10, top_anchor = Some (12::nat), transform = None, info = Map.empty\<rparr>
        PNone = Inr (PList [PObj 0, PNone, PList [], PObj 2, PObj 0])
   \<and> Assembly_init example_world [PObj 0, PNone] =
     Inr \<lparr>actors = PList [PObj 0, PNone], parts = [0],
          base_anchor = Some 10, top_anchor = Some 12, transform = None, info = Map.empty\<rparr>
   \<and> Assembly_init example_world [PStr ''''] =
     Inr \<lparr>actors = PStr '''', parts = [],
          base_anchor = None, top_anchor = None, transform = None, info = Map.empty\<rparr>"
proof -
  let ?self = "\<lparr>actors = PList [PObj 0, PNone, PList [], PObj 2, PObj 0], parts = [0, 2],
          base_anchor = Some 10, top_anchor = Some (12::nat), transform = None, info = Map.empty\<rparr>"
  have h: "Assembly_init example_world [PList [PObj 0, PNone, PList [], PObj 2, PObj 0]] = Inr ?self"
    by (simp add: Assembly_init_def add_item_def example_world_def example_a_def)
  have h2: "Assembly_init example_world [PObj 0, PNone] =
     Inr \<lparr>actors = PList [PObj 0, PNone], parts = [0],
          base_anchor = Some 10, top_anchor = Some 12, transform = None, info = Map.empty\<rparr>"
    by (simp add: Assembly_init_def add_item_def example_world_def example_a_def)
  have h3: "Assembly_init example_world [PStr ''''] =
     Inr \<lparr>actors = PStr '''', parts = [],
          base_anchor = None, top_anchor = None, transform = None, info = Map.empty\<rparr>"
    by (simp add: Assembly_init_def)
  from Assembly_init_keeps_falsy[OF h, of example_world]
  have "unpack example_world ?self PNone = Inr (PList [PObj 0, PNone, PList [], PObj 2, PObj 0])"
    by simp
  with h h2 h3 show ?thesis by simp
qed

section \<open>Properties of add, contains and unpack\<close>

lemma Assembly_add_actors: "actors (snd (Assembly_add self meshs)) = actors self"
  by (cases meshs) (auto split: prod.splits sum.splits)

text \<open>
  Claim C9. \<^verbatim>\<open>__add__\<close> registers the given renderable, or each renderable of a given
  list, as a part of the composite node (the toolkit adds it unless it is a part
  already, so afterwards it is one) and returns the receiver, changed in its parts only:
  the parts it had stay in place. The attribute \<^verbatim>\<open>actors\<close> is the same after every call
  of \<^verbatim>\<open>__add__\<close>, so \<^verbatim>\<open>__contains__\<close> and \<^verbatim>\<open>unpack\<close> answer as before the call.
\<close>

theorem Assembly_add_leaves_actors:
  "Assembly_add self (PObj r) = (None, self\<lparr>parts := add_item (parts self) r\<rparr>)
   \<and> set (add_item (parts self) r) = insert r (set (parts self))
   \<and> prefix (parts self) (add_item (parts self) r)
   \<and> Assembly_add self (PList (map PObj rs))
        = (None, self\<lparr>parts := foldl add_item (parts self) rs\<rparr>)
   \<and> set (foldl add_item (parts self) rs) = set (parts self) \<union> set rs
   \<and> prefix (parts self) (foldl add_item (parts self) rs)
   \<and> actors (snd (Assembly_add self meshs)) = actors self
   \<and> Assembly_contains (snd (Assembly_add self meshs)) x = Assembly_contains self x
   \<and> unpack w (snd (Assembly_add self meshs)) i = unpack w self i"
proof -
  have a: "actors (snd (Assembly_add self meshs)) = actors self"
    by (rule Assembly_add_actors)
  have u: "unpack w (snd (Assembly_add self meshs)) i = unpack w self i"
    by (cases i) (simp_all add: a)
  have p: "prefix (parts self) (add_item (parts self) r)"
    by (simp add: add_item_def)
  show ?thesis
    by (simp add: add_each_objs a u p Assembly_contains_def set_add_item set_foldl_add_item
        foldl_add_item_prefix)
qed

lemma Assembly_contains_iff:
  "actors self = PList xs \<Longrightarrow> Assembly_contains self x = Inr (x \<in> set xs)"
  by (simp add: Assembly_contains_def)

lemma unpack_None: "unpack w self PNone = Inr (actors self)"
  by simp

lemma unpack_int_beyond:
  "as_sequence (actors self) = Inr xs \<Longrightarrow> int (length xs) \<le> i \<Longrightarrow>
   unpack w self (PInt i) = Inl IndexError"
  by (simp add: getitem_def)

lemma unpack_int_within:
  "as_sequence (actors self) = Inr xs \<Longrightarrow> i < length xs \<Longrightarrow>
   unpack w self (PInt (int i)) = Inr (xs ! i)"
  by (simp add: getitem_def)

text \<open>
  The string selector on a sequence whose entries all carry a name: the result is the
  first entry whose name has the string as a substring, and \<^verbatim>\<open>None\<close> when there is no
  such entry.
\<close>

lemma unpack_str_named:
  "\<forall>m\<in>set ms. \<exists>n. name_of w m = Inr n \<Longrightarrow>
   unpack_str w s ms =
     Inr (case find (\<lambda>m. \<exists>n. name_of w m = Inr n \<and> sublist s n) ms of
            None \<Rightarrow> PNone | Some m \<Rightarrow> m)"
  by (induction ms) auto

text \<open>An entry without a name before the first match makes the lookup raise.\<close>

lemma unpack_str_nameless:
  "name_of w m = Inl e \<Longrightarrow> unpack_str w s (m # ms) = Inl e"
  by simp

text \<open>
  Claim C5, on the code. \<^verbatim>\<open>Assembly([None, a])\<close> with \<^verbatim>\<open>a.name == 'abc'\<close> is a valid
  assembly: the constructor keeps the \<^verbatim>\<open>None\<close> entry in \<^verbatim>\<open>actors\<close>. \<^verbatim>\<open>a in assembly\<close> is
  true and \<^verbatim>\<open>'abc' in assembly\<close> is false, as the claim says of the membership test; but
  \<^verbatim>\<open>unpack('b')\<close> raises \<^verbatim>\<open>AttributeError\<close> on the \<^verbatim>\<open>None\<close> entry instead of returning
  \<^verbatim>\<open>a\<close>, the first actor whose name contains \<^verbatim>\<open>'b'\<close>.
\<close>

theorem unpack_substring_raises_on_None_entry:
  "Assembly_init example_world [PList [PNone, PObj 0]] =
     Inr \<lparr>actors = PList [PNone, PObj 0], parts = [0], base_anchor = None, top_anchor = None,
          transform = None, info = Map.empty\<rparr>
   \<and> name_of example_world (PObj 0) = Inr ''abc'' \<and> sublist ''b'' ''abc''
   \<and> Assembly_contains
        \<lparr>actors = PList [PNone, PObj 0], parts = [0], base_anchor = None,
         top_anchor = (None::nat option), transform = None, info = Map.empty\<rparr> (PObj 0)
       = Inr True
   \<and> Assembly_contains
        \<lparr>actors = PList [PNone, PObj 0], parts = [0], base_anchor = None,
         top_anchor = (None::nat option), transform = None, info = Map.empty\<rparr> (PStr ''abc'')
       = Inr False
   \<and> unpack example_world
        \<lparr>actors = PList [PNone, PObj 0], parts = [0], base_anchor = None, top_anchor = None,
         transform = None, info = Map.empty\<rparr> (PStr ''b'') = Inl AttributeError"
proof -
  have s: "sublist ''b'' ''abc''"
    by (simp add: sublist_Cons_right)
  show ?thesis
    using s by (simp add: Assembly_init_def Assembly_contains_def add_item_def
        example_world_def example_a_def)
qed

text \<open>
  Claim C6, on the code. \<^verbatim>\<open>Assembly([a, None])\<close> with \<^verbatim>\<open>a.name == 'abc'\<close>: \<^verbatim>\<open>unpack()\<close>
  returns the stored sequence and \<^verbatim>\<open>unpack(2)\<close> raises \<^verbatim>\<open>IndexError\<close>, as the claim
  says; but \<^verbatim>\<open>unpack('zzz')\<close>, a string that no actor's name contains, raises
  \<^verbatim>\<open>AttributeError\<close> on the \<^verbatim>\<open>None\<close> entry instead of returning \<^verbatim>\<open>None\<close>.
\<close>

theorem unpack_missing_name_raises_on_None_entry:
  "Assembly_init example_world [PList [PObj 0, PNone]] =
     Inr \<lparr>actors = PList [PObj 0, PNone], parts = [0], base_anchor = Some 10,
          top_anchor = Some 12, transform = None, info = Map.empty\<rparr>
   \<and> name_of example_world (PObj 0) = Inr ''abc'' \<and> \<not> sublist ''zzz'' ''abc''
   \<and> unpack example_world
        \<lparr>actors = PList [PObj 0, PNone], parts = [0], base_anchor = Some 10,
         top_anchor = Some 12, transform = None, info = Map.empty\<rparr> PNone
       = Inr (PList [PObj 0, PNone])
   \<and> unpack example_world
        \<lparr>actors = PList [PObj 0, PNone], parts = [0], base_anchor = Some 10,
         top_anchor = Some 12, transform = None, info = Map.empty\<rparr> (PInt 2) = Inl IndexError
   \<and> unpack example_world
        \<lparr>actors = PList [PObj 0, PNone], parts = [0], base_anchor = Some 10,
         top_anchor = Some 12, transform = None, info = Map.empty\<rparr> (PStr ''zzz'')
       = Inl AttributeError"
proof -
  have s: "\<not> sublist ''zzz'' ''abc''"
    by (simp add: sublist_Cons_right)
  show ?thesis
    using s by (simp add: Assembly_init_def getitem_def add_item_def
        example_world_def example_a_def)
qed

section \<open>Properties of clone\<close>

lemma clone_loop_result:
  "fst (clone_loop w newlist (map PObj rs))
     = Inr (newlist @ map PObj [nxt w ..< nxt w + length rs])"
proof (induction rs arbitrary: w newlist)
  case Nil
  then show ?case by simp
next
  case (Cons r rs)
  have "[nxt w ..< nxt w + Suc (length rs)]
          = nxt w # [Suc (nxt w) ..< Suc (nxt w) + length rs]"
    by (simp add: upt_rec)
  then show ?case using Cons.IH
    by (simp add: alloc_def)
qed

lemma clone_loop_frame:
  "r < nxt w \<Longrightarrow> store (snd (clone_loop w newlist xs)) r = store w r"
proof (induction xs arbitrary: w newlist)
  case Nil
  then show ?case by simp
next
  case (Cons a as)
  show ?case
  proof (cases a)
    case (PObj q)
    let ?w' = "snd (alloc w (store w q))"
    have "store (snd (clone_loop ?w' (newlist @ [PObj (nxt w)]) as)) r = store ?w' r"
      using Cons.prems by (intro Cons.IH) (simp add: alloc_def)
    then show ?thesis using PObj Cons.prems by (simp add: alloc_def)
  qed simp_all
qed

lemma clone_loop_copy:
  "k < length rs \<Longrightarrow> \<forall>r\<in>set rs. r < nxt w \<Longrightarrow>
   store (snd (clone_loop w newlist (map PObj rs))) (nxt w + k) = store w (rs ! k)"
proof (induction rs arbitrary: w newlist k)
  case Nil
  then show ?case by simp
next
  case (Cons q rs)
  let ?w' = "snd (alloc w (store w q))"
  have nx: "nxt ?w' = Suc (nxt w)" by (simp add: alloc_def)
  have st: "\<And>r. r < nxt w \<Longrightarrow> store ?w' r = store w r" by (simp add: alloc_def)
  show ?case
  proof (cases k)
    case 0
    have "store (snd (clone_loop ?w' (newlist @ [PObj (nxt w)]) (map PObj rs))) (nxt w)
            = store ?w' (nxt w)"
      by (rule clone_loop_frame) (simp add: nx)
    then show ?thesis using 0 by (simp add: alloc_def)
  next
    case (Suc j)
    have j: "j < length rs" using Cons.prems Suc by simp
    have al: "\<forall>r\<in>set rs. r < nxt ?w'" using Cons.prems nx by auto
    have "store (snd (clone_loop ?w' (newlist @ [PObj (nxt w)]) (map PObj rs))) (nxt ?w' + j)
            = store ?w' (rs ! j)"
      by (rule Cons.IH[OF j al])
    moreover have "store ?w' (rs ! j) = store w (rs ! j)"
      using Cons.prems j by (intro st) auto
    ultimately show ?thesis using Suc nx by (simp add: alloc_def)
  qed
qed

lemma all_objects:
  "\<forall>a\<in>set xs. \<exists>r. a = PObj r \<and> P r \<Longrightarrow> \<exists>rs. xs = map PObj rs \<and> (\<forall>r\<in>set rs. P r)"
proof (induction xs)
  case Nil
  then show ?case by simp
next
  case (Cons a xs)
  then obtain r rs where "a = PObj r" "P r" "xs = map PObj rs" "\<forall>r\<in>set rs. P r"
    by auto
  then have "a # xs = map PObj (r # rs) \<and> (\<forall>r\<in>set (r # rs). P r)" by simp
  then show ?case by (rule exI[of _ "r # rs"])
qed

text \<open>
  Claim C7. For an assembly whose stored entries \<open>xs\<close> are all (existing) renderables,
  \<^verbatim>\<open>clone()\<close> returns a new assembly with as many entries, in the same order. Entry \<open>i\<close>
  of the clone is an object created by the call, so it is another object than entry
  \<open>i\<close> of the source (and than every object that existed before), and its content
  equals the content of that source entry, which is itself unchanged.
\<close>

theorem Assembly_clone_distinct_parts:
  assumes "as_sequence (actors self) = Inr xs"
    and "\<forall>a\<in>set xs. \<exists>r. a = PObj r \<and> r < nxt w"
  shows "\<exists>new w' ys. Assembly_clone w self = (Inr new, w')
     \<and> actors new = PList ys
     \<and> length ys = length xs
     \<and> length (parts new) = length xs
     \<and> (\<forall>i<length xs. \<exists>r r'.
           xs ! i = PObj r \<and> ys ! i = PObj r' \<and> parts new ! i = r'
           \<and> r' \<noteq> r \<and> nxt w \<le> r' \<and> store w' r' = store w r \<and> store w' r = store w r)"
proof -
  from all_objects[OF assms(2)] obtain rs where
    rs: "xs = map PObj rs" and al: "\<forall>r\<in>set rs. r < nxt w" by blast
  let ?cl = "clone_loop w [] (map PObj rs)"
  let ?ns = "[nxt w ..< nxt w + length rs]"
  obtain res w' where cl: "?cl = (res, w')" by (cases ?cl)
  have res: "res = Inr (map PObj ?ns)"
    using clone_loop_result[of w "[]" rs] cl by simp
  have d: "distinct ?ns" by simp
  have c: "Assembly_clone w self =
      (Inr \<lparr>actors = PList (map PObj ?ns), parts = ?ns,
            base_anchor = fst (init_anchors w' (map PObj ?ns)),
            top_anchor = snd (init_anchors w' (map PObj ?ns)),
            transform = None, info = Map.empty\<rparr>, w')"
    using cl res rs assms(1) by (simp add: Assembly_clone_def Assembly_init_objs[OF d])
  have copy: "\<And>i. i < length rs \<Longrightarrow> store w' (nxt w + i) = store w (rs ! i)"
    using clone_loop_copy[OF _ al, of _ "[]"] cl by simp
  have frame: "\<And>i. i < length rs \<Longrightarrow> store w' (rs ! i) = store w (rs ! i)"
    using clone_loop_frame[of _ w "[]" "map PObj rs"] al cl by simp
  have old: "\<And>i. i < length rs \<Longrightarrow> rs ! i < nxt w"
    using al by simp
  have "\<forall>i<length rs. \<exists>r r'. map PObj rs ! i = PObj r \<and> map PObj ?ns ! i = PObj r'
           \<and> ?ns ! i = r'
           \<and> r' \<noteq> r \<and> nxt w \<le> r' \<and> store w' r' = store w r \<and> store w' r = store w r"
  proof (intro allI impI)
    fix i assume i: "i < length rs"
    have "rs ! i \<noteq> nxt w + i" using old[OF i] by simp
    then show "\<exists>r r'. map PObj rs ! i = PObj r \<and> map PObj ?ns ! i = PObj r'
           \<and> ?ns ! i = r'
           \<and> r' \<noteq> r \<and> nxt w \<le> r' \<and> store w' r' = store w r \<and> store w' r = store w r"
      using i copy[OF i] frame[OF i] by auto
  qed
  then show ?thesis unfolding c rs by simp
qed

theorem Assembly_clone_distinct_parts_witness:
  "\<exists>new w'.
     Assembly_clone example_world
       \<lparr>actors = PList [PObj 0, PObj 2], parts = [0, 2], base_anchor = Some 10,
        top_anchor = Some 12, transform = None, info = Map.empty\<rparr> = (Inr new, w')
     \<and> actors new = PList [PObj 3, PObj 4] \<and> parts new = [3, 4]
     \<and> store w' 3 = example_a \<and> store w' 4 = example_c
     \<and> store w' 0 = example_a \<and> store w' 2 = example_c"
proof -
  let ?self = "\<lparr>actors = PList [PObj 0, PObj 2], parts = [0, 2], base_anchor = Some 10,
        top_anchor = Some (12::nat), transform = None, info = Map.empty\<rparr>"
  have h1: "as_sequence (actors ?self) = Inr [PObj 0, PObj 2]" by simp
  have h2: "\<forall>a\<in>set [PObj 0, PObj 2]. \<exists>r. a = PObj r \<and> r < nxt example_world"
    by (simp add: example_world_def)
  from Assembly_clone_distinct_parts[OF h1 h2] obtain new w' ys where
    c: "Assembly_clone example_world ?self = (Inr new, w')"
    and l: "actors new = PList ys" "length ys = length [PObj 0, PObj 2]"
    and e: "\<forall>i<length [PObj 0, PObj 2]. \<exists>r r'.
           [PObj 0, PObj 2] ! i = PObj r \<and> ys ! i = PObj r' \<and> parts new ! i = r'
           \<and> r' \<noteq> r \<and> nxt example_world \<le> r' \<and> store w' r' = store example_world r
           \<and> store w' r = store example_world r"
    by blast
  have c': "Assembly_clone example_world ?self =
      (Inr \<lparr>actors = PList [PObj 3, PObj 4], parts = [3, 4], base_anchor = Some 10,
            top_anchor = Some 12, transform = None, info = Map.empty\<rparr>,
       example_world\<lparr>store := (store example_world)(3 := example_a, 4 := example_c), nxt := 5\<rparr>)"
    by (simp add: Assembly_clone_def Assembly_init_def alloc_def add_item_def
        example_world_def example_a_def)
  from c c' have n: "actors new = PList [PObj 3, PObj 4]" "parts new = [3, 4]" by auto
  from n l have y: "ys = [PObj 3, PObj 4]" by simp
  from e[rule_format, of 0] y have 0: "store w' 3 = example_a" "store w' 0 = example_a"
    by (auto simp: example_world_def)
  from e[rule_format, of 1] y have 1: "store w' 4 = example_c" "store w' 2 = example_c"
    by (auto simp: example_world_def)
  from c n 0 1 show ?thesis by blast
qed

end
